theory Spec2Isabelle
  imports Complex_Main "HOL-Library.Multiset" "HOL-Library.List_Lexorder"
begin

section \<open>Data of the merged frame, as the disclosure tracker reads it\<close>

text \<open>
  A Python \<open>str\<close> is the list of its code points. The marker of line 127 of
  \<^verbatim>\<open>ledger.py\<close> (three CJK characters, "open-ended") is the code points
  U+5F00 U+653E U+5F0F.
\<close>

type_synonym ustring = "nat list"

definition open_marker :: ustring where
  "open_marker = [24320, 25918, 24335]"

text \<open>
  A cell of a datetime column after \<open>parse_mixed_date\<close>: \<open>NaT\<close>, or a timestamp
  floored to the day, held as its number of days since 1970-01-01.
\<close>

datatype ts = NaT | Day int

text \<open>
  A cell of the unit-value column: \<open>NaN\<close> (what \<open>pd.isna\<close> accepts) or a number.
  Finite floats are read as the reals they denote, so that \<open>==\<close> on them is equality.
\<close>

datatype nav = NaN | Num real

text \<open>
  One row of \<open>df_merged\<close>, with the four columns \<open>assign_nav_disclosure_dates\<close>
  reads: product code (\<open>None\<close> is a missing key), operating mode (\<open>None\<close> is a
  missing cell), scale calculation date, latest unit value.
\<close>

record row =
  code :: "ustring option"
  mode :: "ustring option"
  scale_date :: ts
  unit_nav :: nav

section \<open>The disclosure tracker: \<open>assign_nav_disclosure_dates\<close>\<close>

text \<open>\<open>astype(str)\<close> writes a missing cell as the text \<open>nan\<close>.\<close>

definition astype_str :: "ustring option \<Rightarrow> ustring" where
  "astype_str m = (case m of None \<Rightarrow> [110, 97, 110] | Some s \<Rightarrow> s)"

text \<open>
  \<open>str.contains(pat)\<close> for a pattern without regular-expression metacharacters:
  the pattern occurs somewhere in the text.
\<close>

fun contains :: "'a list \<Rightarrow> 'a list \<Rightarrow> bool" where
  "contains pat [] = (pat = [])"
| "contains pat (x # xs) = (take (length pat) (x # xs) = pat \<or> contains pat xs)"

definition is_open :: "row \<Rightarrow> bool" where
  "is_open r = contains open_marker (astype_str (mode r))"

definition pd_isna :: "nav \<Rightarrow> bool" where
  "pd_isna v = (v = NaN)"

text \<open>
  Python's \<open>!=\<close> on the values \<open>last_nav\<close> and \<open>current_nav\<close> can hold: \<open>None\<close>
  (here \<open>None\<close>), a NaN, which differs from everything and from itself, or a number.
\<close>

fun py_ne :: "nav option \<Rightarrow> nav option \<Rightarrow> bool" where
  "py_ne None None = False"
| "py_ne (Some (Num a)) (Some (Num b)) = (a \<noteq> b)"
| "py_ne _ _ = True"

text \<open>
  The body of the loop over \<open>group_sorted.iterrows()\<close> (lines 131 to 141): the state
  is \<open>(last_nav, last_date)\<close>, each \<open>None\<close> being Python's \<open>None\<close>.
\<close>

type_synonym tracker_state = "nav option \<times> ts option"

definition step :: "row \<Rightarrow> tracker_state \<Rightarrow> tracker_state" where
  "step r st =
     (let last_nav = fst st; last_date = snd st in
      if is_open r then (Some (unit_nav r), Some (scale_date r))
      else
        let current_nav = (if pd_isna (unit_nav r) then last_nav else Some (unit_nav r)) in
        if last_nav = None \<or> py_ne current_nav last_nav
        then (current_nav, Some (scale_date r))
        else (last_nav, last_date))"

text \<open>The list \<open>dates\<close>: after each row, \<open>last_date\<close> is appended (line 142).\<close>

fun walk :: "tracker_state \<Rightarrow> row list \<Rightarrow> ts option list" where
  "walk st [] = []"
| "walk st (r # rs) = (let st' = step r st in snd st' # walk st' rs)"

text \<open>
  \<open>df.groupby(code)\<close>: one group for each key that is not missing, in ascending key
  order; a group keeps its rows with their index labels. \<open>df_merged\<close> comes out of
  \<open>pd.merge\<close>, so its index is \<open>0, 1, ..., n - 1\<close>: a label is a position.
\<close>

definition group_keys :: "row list \<Rightarrow> ustring list" where
  "group_keys df = sort (remdups (concat (map (\<lambda>r. case code r of None \<Rightarrow> [] | Some c \<Rightarrow> [c]) df)))"

definition group_rows :: "ustring \<Rightarrow> row list \<Rightarrow> (nat \<times> row) list" where
  "group_rows c df = filter (\<lambda>ir. code (snd ir) = Some c) (enumerate 0 df)"

text \<open>
  \<open>sort_values\<close> on the date column puts the rows in ascending date order with
  \<open>NaT\<close> last. Its default algorithm is not stable, so the order of rows with equal
  dates is not fixed: the sort is a parameter \<open>srt\<close>, and \<open>sorts_by_date\<close> is all
  that is known of it.
\<close>

fun date_le :: "ts \<Rightarrow> ts \<Rightarrow> bool" where
  "date_le (Day a) (Day b) = (a \<le> b)"
| "date_le _ NaT = True"
| "date_le NaT (Day b) = False"

definition sorts_by_date :: "((nat \<times> row) list \<Rightarrow> (nat \<times> row) list) \<Rightarrow> bool" where
  "sorts_by_date srt =
     (\<forall>xs. mset (srt xs) = mset xs \<and> sorted_wrt date_le (map (\<lambda>ir. scale_date (snd ir)) (srt xs)))"

text \<open>One sort that qualifies: insertion from the right, which is stable.\<close>

fun place :: "nat \<times> row \<Rightarrow> (nat \<times> row) list \<Rightarrow> (nat \<times> row) list" where
  "place x [] = [x]"
| "place x (y # ys) =
     (if date_le (scale_date (snd x)) (scale_date (snd y)) then x # y # ys else y # place x ys)"

fun stable_sort_values :: "(nat \<times> row) list \<Rightarrow> (nat \<times> row) list" where
  "stable_sort_values [] = []"
| "stable_sort_values (x # xs) = place x (stable_sort_values xs)"

text \<open>
  Writing a datetime series: Python's \<open>None\<close> is stored as \<open>NaT\<close>.
\<close>

definition to_ts :: "ts option \<Rightarrow> ts" where
  "to_ts d = (case d of None \<Rightarrow> NaT | Some t \<Rightarrow> t)"

text \<open>
  The body of the loop over the groups (lines 126 to 143), ending with
  \<open>result.loc[group_sorted.index] = dates\<close>.
\<close>

definition assign_group ::
  "((nat \<times> row) list \<Rightarrow> (nat \<times> row) list) \<Rightarrow> row list \<Rightarrow> ustring \<Rightarrow> ts list \<Rightarrow> ts list" where
  "assign_group srt df c result =
     (let group_sorted = srt (group_rows c df);
          dates = walk (None, None) (map snd group_sorted)
      in fold (\<lambda>id res. res[fst id := to_ts (snd id)]) (zip (map fst group_sorted) dates) result)"

definition assign_nav_disclosure_dates ::
  "((nat \<times> row) list \<Rightarrow> (nat \<times> row) list) \<Rightarrow> row list \<Rightarrow> ts list" where
  "assign_nav_disclosure_dates srt df =
     fold (assign_group srt df) (group_keys df) (replicate (length df) NaT)"

text \<open>
  The event regime as section 4.4 of the specification words it: the state is
  \<open>(last_known_value, last_known_disclosure_date)\<close>, an observation is a nullable unit
  value with its reporting date.
\<close>

definition spec_event_step ::
  "real option \<times> ts \<Rightarrow> real option \<times> ts option \<Rightarrow> real option \<times> ts option" where
  "spec_event_step ob st =
     (let effective = (case fst ob of Some v \<Rightarrow> Some v | None \<Rightarrow> fst st) in
      if fst st = None \<or> effective \<noteq> fst st then (effective, Some (snd ob)) else st)"

fun spec_event_walk :: "real option \<times> ts option \<Rightarrow> (real option \<times> ts) list \<Rightarrow> ts option list" where
  "spec_event_walk st [] = []"
| "spec_event_walk st (ob # obs) =
     (let st' = spec_event_step ob st in snd st' # spec_event_walk st' obs)"

definition observation :: "row \<Rightarrow> real option \<times> ts" where
  "observation r = (case unit_nav r of NaN \<Rightarrow> None | Num v \<Rightarrow> Some v, scale_date r)"

text \<open>
  What the specification calls \<open>last_known_value\<close>, read off \<open>last_nav\<close>: a number,
  or null.
\<close>

definition known_value :: "nav option \<Rightarrow> real option" where
  "known_value v = (case v of Some (Num x) \<Rightarrow> Some x | _ \<Rightarrow> None)"

text \<open>
  Three small frames for the examples: one product on the event regime given out of date
  order, one product on the open regime, and a frame with two products and a row whose
  product code is missing.
\<close>

definition event_frame :: "row list" where
  "event_frame =
     [\<lparr>code = Some [65], mode = Some [23553, 38381, 24335], scale_date = Day 3, unit_nav = Num 1.05\<rparr>,
      \<lparr>code = Some [65], mode = Some [23553, 38381, 24335], scale_date = Day 1, unit_nav = Num 1.00\<rparr>,
      \<lparr>code = Some [65], mode = Some [23553, 38381, 24335], scale_date = Day 4, unit_nav = Num 1.05\<rparr>,
      \<lparr>code = Some [65], mode = Some [23553, 38381, 24335], scale_date = Day 2, unit_nav = NaN\<rparr>]"

definition open_frame :: "row list" where
  "open_frame =
     [\<lparr>code = Some [66], mode = Some [24320, 25918, 24335, 20928, 20540, 22411], scale_date = Day 2, unit_nav = Num 1.02\<rparr>,
      \<lparr>code = Some [66], mode = Some [24320, 25918, 24335, 20928, 20540, 22411], scale_date = Day 1, unit_nav = Num 1.02\<rparr>,
      \<lparr>code = Some [66], mode = Some [24320, 25918, 24335, 20928, 20540, 22411], scale_date = Day 3, unit_nav = NaN\<rparr>]"

definition mixed_frame :: "row list" where
  "mixed_frame =
     [\<lparr>code = Some [65], mode = None, scale_date = Day 3, unit_nav = Num 1.00\<rparr>,
      \<lparr>code = Some [66], mode = Some [24320, 25918, 24335], scale_date = Day 2, unit_nav = Num 1.02\<rparr>,
      \<lparr>code = None, mode = None, scale_date = Day 5, unit_nav = Num 1.00\<rparr>,
      \<lparr>code = Some [65], mode = None, scale_date = Day 1, unit_nav = Num 1.00\<rparr>]"

section \<open>The date normalizer: \<open>parse_mixed_date\<close>\<close>

text \<open>
  The text of a date cell is an Isabelle \<open>string\<close>: code points 0 to 255. On these,
  \<open>\d\<close> of Python's \<open>re\<close> is exactly the ten ASCII digits, and the white space
  \<open>str.strip\<close> removes is the code points 9 to 13, 28 to 32, 133 and 160.

  A scalar handed to \<open>convert\<close> is seen through three observations only:
  \<open>pd.isna(value)\<close>, \<open>value == ""\<close> and \<open>str(value)\<close>. \<open>Null\<close> is any value
  \<open>pd.isna\<close> accepts (\<open>None\<close>, NaN, \<open>NaT\<close>); \<open>Text\<close> is a \<open>str\<close>; \<open>Integer\<close> an
  integer; \<open>WholeFloat n\<close> a float whose value is the whole number \<open>n\<close>, of fewer
  than seventeen digits, as a numeric cell of a sheet is read when its column also holds
  an empty cell; \<open>Date y m d\<close> a timestamp at midnight of the calendar date, as
  \<open>parse_mixed_date\<close> itself returns; \<open>Other s\<close> any other scalar, \<open>s\<close> being its
  \<open>str()\<close>.
\<close>

datatype raw = Null | Text string | Integer int | WholeFloat int | Date int int int | Other string

text \<open>
  What \<open>pd.to_datetime\<close> returns: \<open>NaT\<close>; a timestamp without time zone, given by
  its calendar date and the nanoseconds since midnight; or a timestamp with a time zone,
  of which only the offset from UTC in minutes and the \<open>str()\<close> are kept.
  \<open>canonical\<close> is a value after \<open>.dt.floor("D")\<close>.
\<close>

datatype datetime = PdNaT | Timestamp int int int nat | Aware int string

datatype canonical = Unknown | Midnight int int int | AwareDay int string

text \<open>
  The exceptions: of the three calls to \<open>pd.to_datetime\<close>, of a lookup, of float
  arithmetic and of the \<open>.dt\<close> accessor.
\<close>

datatype exn =
  ValueError | OutOfBoundsDatetime | ParserError | KeyError | OverflowError | ZeroDivisionError |
  AttributeError

subsection \<open>The proleptic Gregorian calendar\<close>

definition is_leap :: "int \<Rightarrow> bool" where
  "is_leap y = (y mod 4 = 0 \<and> (y mod 100 \<noteq> 0 \<or> y mod 400 = 0))"

definition days_in_month :: "int \<Rightarrow> int \<Rightarrow> int" where
  "days_in_month y m =
     (if m = 2 then (if is_leap y then 29 else 28)
      else if m = 4 \<or> m = 6 \<or> m = 9 \<or> m = 11 then 30 else 31)"

definition valid_date :: "int \<Rightarrow> int \<Rightarrow> int \<Rightarrow> bool" where
  "valid_date y m d = (1 \<le> m \<and> m \<le> 12 \<and> 1 \<le> d \<and> d \<le> days_in_month y m)"

text \<open>Days between 1970-01-01 and a calendar date, and back.\<close>

definition days_from_civil :: "int \<Rightarrow> int \<Rightarrow> int \<Rightarrow> int" where
  "days_from_civil y m d =
     (let y' = (if m \<le> 2 then y - 1 else y);
          era = y' div 400;
          yoe = y' - era * 400;
          mp = (if m > 2 then m - 3 else m + 9);
          doy = (153 * mp + 2) div 5 + d - 1;
          doe = yoe * 365 + yoe div 4 - yoe div 100 + doy
      in era * 146097 + doe - 719468)"

definition civil_from_days :: "int \<Rightarrow> int \<times> int \<times> int" where
  "civil_from_days z =
     (let z' = z + 719468;
          era = z' div 146097;
          doe = z' - era * 146097;
          yoe = (doe - doe div 1460 + doe div 36524 - doe div 146096) div 365;
          y = yoe + era * 400;
          doy = doe - (365 * yoe + yoe div 4 - yoe div 100);
          mp = (5 * doy + 2) div 153;
          d = doy - (153 * mp + 2) div 5 + 1;
          m = (if mp < 10 then mp + 3 else mp - 9)
      in (if m \<le> 2 then y + 1 else y, m, d))"

text \<open>
  A timestamp is a signed 64-bit count of nanoseconds since 1970-01-01, the least value
  being kept for \<open>NaT\<close>: it runs from 1677-09-21 00:12:43.145224193 to
  2262-04-11 23:47:16.854775807. \<open>stamp_in_bounds day ns\<close>: the time \<open>ns\<close> nanoseconds
  after midnight of day number \<open>day\<close> is a timestamp; outside, \<open>pd.to_datetime\<close>
  raises \<open>OutOfBoundsDatetime\<close>. \<open>in_bounds\<close>: the days whose midnight is a
  timestamp, 1677-09-22 to 2262-04-11.
\<close>

definition stamp_in_bounds :: "int \<Rightarrow> nat \<Rightarrow> bool" where
  "stamp_in_bounds day ns =
     (- 9223372036854775807 \<le> day * 86400000000000 + int ns \<and>
      day * 86400000000000 + int ns \<le> 9223372036854775807)"

definition in_bounds :: "int \<Rightarrow> bool" where
  "in_bounds n = (- 106751 \<le> n \<and> n \<le> 106751)"

subsection \<open>Text\<close>

definition is_space :: "char \<Rightarrow> bool" where
  "is_space c = (let n = (of_char c :: nat) in
     (9 \<le> n \<and> n \<le> 13) \<or> (28 \<le> n \<and> n \<le> 32) \<or> n = 133 \<or> n = 160)"

definition strip :: "string \<Rightarrow> string" where
  "strip s = rev (dropWhile is_space (rev (dropWhile is_space s)))"

definition is_digit :: "char \<Rightarrow> bool" where
  "is_digit c = (48 \<le> (of_char c :: nat) \<and> (of_char c :: nat) \<le> 57)"

definition digit_val :: "char \<Rightarrow> nat" where
  "digit_val c = of_char c - 48"

definition digit_char :: "nat \<Rightarrow> char" where
  "digit_char n = char_of (48 + n)"

text \<open>The number a string of digits denotes (\<open>float(text)\<close> on such a string).\<close>

definition nat_of_digits :: "string \<Rightarrow> nat" where
  "nat_of_digits s = foldl (\<lambda>n c. 10 * n + digit_val c) 0 s"

text \<open>\<open>pad n k\<close>: the last \<open>n\<close> decimal digits of \<open>k\<close>, zero padded.\<close>

fun pad :: "nat \<Rightarrow> nat \<Rightarrow> string" where
  "pad 0 k = []"
| "pad (Suc n) k = pad n (k div 10) @ [digit_char (k mod 10)]"

text \<open>\<open>dec k\<close>: the decimal digits of \<open>k\<close>.\<close>

function dec :: "nat \<Rightarrow> string" where
  "dec n = (if n < 10 then [digit_char n] else dec (n div 10) @ [digit_char (n mod 10)])"
  by pat_completeness auto
termination
  by (relation "measure id") auto

declare dec.simps [simp del]

text \<open>
  \<open>str(value)\<close>. A missing value prints as \<open>nan\<close> (it never reaches this point); a
  float of whole value prints with \<open>.0\<close> after its digits; a timestamp at midnight
  prints as \<open>YYYY-MM-DD 00:00:00\<close>.
\<close>

definition py_str :: "raw \<Rightarrow> string" where
  "py_str v =
     (case v of
        Null \<Rightarrow> ''nan''
      | Text s \<Rightarrow> s
      | Integer n \<Rightarrow> (if n < 0 then CHR ''-'' # dec (nat (- n)) else dec (nat n))
      | WholeFloat n \<Rightarrow> (if n < 0 then CHR ''-'' # dec (nat (- n)) else dec (nat n)) @ ''.0''
      | Date y m d \<Rightarrow> pad 4 (nat y) @ ''-'' @ pad 2 (nat m) @ ''-'' @ pad 2 (nat d) @ '' 00:00:00''
      | Other s \<Rightarrow> s)"

text \<open>\<open>re.fullmatch\<close> of \<open>\d{lo,hi}\<close>.\<close>

definition fullmatch_digits :: "nat \<Rightarrow> nat \<Rightarrow> string \<Rightarrow> bool" where
  "fullmatch_digits lo hi text = (lo \<le> length text \<and> length text \<le> hi \<and> list_all is_digit text)"

definition field :: "nat \<Rightarrow> nat \<Rightarrow> string \<Rightarrow> string" where
  "field i n text = take n (drop i text)"

subsection \<open>The three calls to \<open>pd.to_datetime\<close>\<close>

text \<open>
  Line 18, \<open>pd.to_datetime(text, format="%Y%m%d")\<close>, on a text of eight digits: four
  digits of year, two of month, two of day; no such date, or one out of bounds, raises.
\<close>

definition to_datetime_ymd :: "string \<Rightarrow> exn + datetime" where
  "to_datetime_ymd text =
     (let y = int (nat_of_digits (field 0 4 text));
          m = int (nat_of_digits (field 4 2 text));
          d = int (nat_of_digits (field 6 2 text))
      in if \<not> valid_date y m d then Inl ValueError
         else if \<not> in_bounds (days_from_civil y m d) then Inl OutOfBoundsDatetime
         else Inr (Timestamp y m d 0))"

text \<open>
  Line 24, \<open>pd.to_datetime(float(text), unit="D", origin="1899-12-30")\<close>, on a text of
  digits: so many days after 1899-12-30.
\<close>

definition to_datetime_serial :: "string \<Rightarrow> exn + datetime" where
  "to_datetime_serial text =
     (let n = days_from_civil 1899 12 30 + int (nat_of_digits text)
      in if \<not> in_bounds n then Inl OutOfBoundsDatetime
         else case civil_from_days n of (y, m, d) \<Rightarrow> Inr (Timestamp y m d 0))"

text \<open>
  What of pandas is not fixed here is a parameter \<open>lib\<close>: the generic parser on the
  texts \<open>parse_iso\<close> does not read, which returns a timestamp, \<open>NaT\<close> or raises;
  and the floor to the day of a timestamp with a time zone, which returns the
  \<open>str()\<close> of the floored timestamp or raises.
\<close>

record pandas =
  generic_parse :: "string \<Rightarrow> exn + datetime"
  floor_aware :: "int \<Rightarrow> string \<Rightarrow> exn + string"

text \<open>
  Line 29, \<open>pd.to_datetime(text)\<close>. Of the generic parser only this much is fixed: a
  text \<open>YYYY-MM-DD HH:MM:SS\<close> that names a date and a time of day within the bounds
  of a timestamp is that timestamp, without time zone.
\<close>

definition parse_iso :: "string \<Rightarrow> datetime option" where
  "parse_iso text =
     (if length text = 19 \<and> text ! 4 = CHR ''-'' \<and> text ! 7 = CHR ''-'' \<and> text ! 10 = CHR '' '' \<and>
         text ! 13 = CHR '':'' \<and> text ! 16 = CHR '':'' \<and>
         list_all is_digit (field 0 4 text @ field 5 2 text @ field 8 2 text @
                            field 11 2 text @ field 14 2 text @ field 17 2 text)
      then
        (let y = int (nat_of_digits (field 0 4 text));
             m = int (nat_of_digits (field 5 2 text));
             d = int (nat_of_digits (field 8 2 text));
             hh = nat_of_digits (field 11 2 text);
             mi = nat_of_digits (field 14 2 text);
             ss = nat_of_digits (field 17 2 text)
         in if valid_date y m d \<and> hh < 24 \<and> mi < 60 \<and> ss < 60 \<and>
               stamp_in_bounds (days_from_civil y m d) (((hh * 60 + mi) * 60 + ss) * 1000000000)
            then Some (Timestamp y m d (((hh * 60 + mi) * 60 + ss) * 1000000000))
            else None)
      else None)"

definition to_datetime_generic :: "pandas \<Rightarrow> string \<Rightarrow> exn + datetime" where
  "to_datetime_generic lib text =
     (case parse_iso text of Some t \<Rightarrow> Inr t | None \<Rightarrow> generic_parse lib text)"

subsection \<open>\<open>convert\<close>, the floor to the day and \<open>parse_mixed_date\<close>\<close>

definition pd_isna_raw :: "raw \<Rightarrow> bool" where
  "pd_isna_raw v = (v = Null)"

text \<open>
  \<open>try: return r\<close> followed by \<open>except Exception: pass\<close>: the value, or nothing
  when the call raised.
\<close>

definition attempt :: "exn + 'a \<Rightarrow> 'a option" where
  "attempt r = (case r of Inl e \<Rightarrow> None | Inr t \<Rightarrow> Some t)"

text \<open>
  \<open>convert\<close> (lines 10 to 31). A stage whose pattern does not match is not attempted;
  a stage that raises passes on to the next, and the last returns \<open>NaT\<close> when it
  raises. The result is a sum so that an exception leaving \<open>convert\<close> would show as
  \<open>Inl\<close>.
\<close>

definition convert :: "pandas \<Rightarrow> raw \<Rightarrow> exn + datetime" where
  "convert lib v =
     (if pd_isna_raw v \<or> v = Text [] then Inr PdNaT
      else
        let text = strip (py_str v) in
        case (if fullmatch_digits 8 8 text then attempt (to_datetime_ymd text) else None) of
          Some t \<Rightarrow> Inr t
        | None \<Rightarrow>
            (case (if fullmatch_digits 4 6 text then attempt (to_datetime_serial text) else None) of
               Some t \<Rightarrow> Inr t
             | None \<Rightarrow>
                 (case attempt (to_datetime_generic lib text) of
                    Some t \<Rightarrow> Inr t
                  | None \<Rightarrow> Inr PdNaT)))"

text \<open>
  \<open>.dt.floor("D")\<close> on one cell (line 33, outside every \<open>try\<close>): \<open>NaT\<close> stays;
  a timestamp becomes the midnight of its day, and where that midnight is below the
  least timestamp (on 1677-09-21) the floor raises \<open>OverflowError\<close>.
\<close>

definition floor_D :: "pandas \<Rightarrow> datetime \<Rightarrow> exn + canonical" where
  "floor_D lib t =
     (case t of
        PdNaT \<Rightarrow> Inr Unknown
      | Timestamp y m d ns \<Rightarrow>
          if stamp_in_bounds (days_from_civil y m d) 0 then Inr (Midnight y m d)
          else Inl OverflowError
      | Aware off s \<Rightarrow>
          (case floor_aware lib off s of Inl e \<Rightarrow> Inl e | Inr s' \<Rightarrow> Inr (AwareDay off s')))"

text \<open>
  \<open>normalize\<close>: \<open>parse_mixed_date\<close> on one cell, \<open>convert\<close> and then the floor.
\<close>

definition normalize :: "pandas \<Rightarrow> raw \<Rightarrow> exn + canonical" where
  "normalize lib v = (case convert lib v of Inl e \<Rightarrow> Inl e | Inr t \<Rightarrow> floor_D lib t)"

text \<open>
  \<open>parse_mixed_date\<close> on a column (line 33), the column being one of scalars as a
  sheet gives them (dtype \<open>object\<close>). \<open>series.apply(convert)\<close> is a datetime
  column, on which \<open>.dt\<close> is defined, only when it has a cell and its timestamps are
  all without time zone or all of one offset; otherwise \<open>.dt\<close> raises
  \<open>AttributeError\<close>. The first exception ends the call.
\<close>

fun sequence :: "(exn + 'a) list \<Rightarrow> exn + 'a list" where
  "sequence [] = Inr []"
| "sequence (r # rs) =
     (case r of
        Inl e \<Rightarrow> Inl e
      | Inr x \<Rightarrow> (case sequence rs of Inl e \<Rightarrow> Inl e | Inr xs \<Rightarrow> Inr (x # xs)))"

definition zone :: "datetime \<Rightarrow> int option list" where
  "zone t = (case t of PdNaT \<Rightarrow> [] | Timestamp y m d ns \<Rightarrow> [None] | Aware off s \<Rightarrow> [Some off])"

definition datetimelike :: "datetime list \<Rightarrow> bool" where
  "datetimelike cells = (cells \<noteq> [] \<and> length (remdups (concat (map zone cells))) \<le> 1)"

definition parse_mixed_date :: "pandas \<Rightarrow> raw list \<Rightarrow> exn + canonical list" where
  "parse_mixed_date lib series =
     (case sequence (map (convert lib) series) of
        Inl e \<Rightarrow> Inl e
      | Inr cells \<Rightarrow>
          if datetimelike cells then sequence (map (floor_D lib) cells)
          else Inl AttributeError)"

text \<open>
  Every attempt that \<open>convert\<close> makes on the value raises: the input is unparseable.
\<close>

definition exhausted :: "pandas \<Rightarrow> raw \<Rightarrow> bool" where
  "exhausted lib v =
     (let text = strip (py_str v) in
      (fullmatch_digits 8 8 text \<longrightarrow> isl (to_datetime_ymd text)) \<and>
      (fullmatch_digits 4 6 text \<longrightarrow> isl (to_datetime_serial text)) \<and>
      isl (to_datetime_generic lib text))"

text \<open>A normalized value as the scalar it is when the column is normalized again.\<close>

definition as_raw :: "canonical \<Rightarrow> raw" where
  "as_raw c =
     (case c of Unknown \<Rightarrow> Null | Midnight y m d \<Rightarrow> Date y m d | AwareDay off s \<Rightarrow> Other s)"

text \<open>
  For the examples: a generic parser that parses nothing, and one that reads a single
  text with the offset \<open>+08:00\<close>, 480 minutes.
\<close>

definition no_parser :: pandas where
  "no_parser = \<lparr>generic_parse = (\<lambda>text. Inl ParserError), floor_aware = (\<lambda>off s. Inr s)\<rparr>"

definition offset_parser :: pandas where
  "offset_parser =
     \<lparr>generic_parse =
        (\<lambda>text. if text = ''2024-01-01T00:00:00+08:00''
                then Inr (Aware 480 ''2024-01-01 00:00:00+08:00'') else Inl ParserError),
      floor_aware = (\<lambda>off s. Inr s)\<rparr>"

section \<open>The record merger: \<open>pd.merge\<close> of line 88\<close>

text \<open>
  \<open>pd.merge(df_nv_all, df_product, how='left', on=code)\<close>. A valuation row is its key and
  its other fields \<open>'a\<close>, a catalog row its key and its other fields \<open>'b\<close>. Keys are
  compared as they are, code point by code point; a missing key (\<open>None\<close>) matches a
  missing key, as \<open>merge\<close> has it. The rows come out in the order of the valuation rows,
  each once for every catalog row of its key, or once with the catalog fields null
  (\<open>None\<close>) when there is none.
\<close>

definition matches :: "ustring option \<Rightarrow> (ustring option \<times> 'b) list \<Rightarrow> 'b list" where
  "matches k catalog = map snd (filter (\<lambda>kb. fst kb = k) catalog)"

definition merge_row ::
  "ustring option \<times> 'a \<Rightarrow> (ustring option \<times> 'b) list \<Rightarrow> (ustring option \<times> 'a \<times> 'b option) list" where
  "merge_row va catalog =
     (case matches (fst va) catalog of
        [] \<Rightarrow> [(fst va, snd va, None)]
      | b # bs \<Rightarrow> map (\<lambda>b'. (fst va, snd va, Some b')) (b # bs))"

definition merge_left ::
  "(ustring option \<times> 'a) list \<Rightarrow> (ustring option \<times> 'b) list \<Rightarrow> (ustring option \<times> 'a \<times> 'b option) list" where
  "merge_left nv catalog = concat (map (\<lambda>va. merge_row va catalog) nv)"

text \<open>An example: keys \<open>A1\<close>, \<open>a1\<close>, \<open>A1\<close> with a trailing space, \<open>A1\<close>.\<close>

definition nv_example :: "(ustring option \<times> nat) list" where
  "nv_example = [(Some [65, 49], 1), (Some [97, 49], 2), (Some [65, 49, 32], 3), (Some [65, 49], 4)]"

definition catalog_example :: "(ustring option \<times> nat) list" where
  "catalog_example = [(Some [65, 49], 10), (Some [66, 50], 20)]"

section \<open>The return calculator: \<open>calc_annualized_return\<close>\<close>

text \<open>
  The three cells the function reads from a row. \<open>None\<close> is a column the frame does
  not have: the lookup raises \<open>KeyError\<close>. A unit value is a cell of the tracker
  (\<open>NaN\<close> or a number) or a cell \<open>float()\<close> rejects.
\<close>

datatype unit_cell = Value nav | NonNumeric

record return_row =
  r_scale_date :: "ts option"
  r_inception :: "ts option"
  r_unit_nav :: "unit_cell option"

text \<open>
  \<open>(a - b).days\<close>: a whole number, or NaN when one of the dates is \<open>NaT\<close> (the
  difference is \<open>NaT\<close>, whose \<open>days\<close> is NaN).
\<close>

datatype days = Days int | DaysNaN

text \<open>
  A Python number the function can return. Floats are read as the reals they denote:
  rounding is not modelled; a power beyond the largest double raises \<open>OverflowError\<close>,
  a product beyond it is infinite, with its sign.
\<close>

datatype pynum = Float real | FloatNaN | FloatInf | FloatNegInf | Cplx complex

definition dbl_max :: real where
  "dbl_max = (2 - 1 / 2 ^ 52) * 2 ^ 1023"

definition timedelta_days :: "ts \<Rightarrow> ts \<Rightarrow> days" where
  "timedelta_days a b = (case (a, b) of (Day m, Day n) \<Rightarrow> Days (m - n) | _ \<Rightarrow> DaysNaN)"

definition days_le_zero :: "days \<Rightarrow> bool" where
  "days_le_zero d = (case d of Days n \<Rightarrow> n \<le> 0 | DaysNaN \<Rightarrow> False)"

definition div_365 :: "days \<Rightarrow> exn + real option" where
  "div_365 d =
     (case d of
        Days n \<Rightarrow> if n = 0 then Inl ZeroDivisionError else Inr (Some (365 / of_int n))
      | DaysNaN \<Rightarrow> Inr None)"

text \<open>
  \<open>pow(x, e)\<close> on floats, \<open>e = None\<close> being a NaN exponent: \<open>x ** 0\<close> is 1;
  \<open>1 ** nan\<close> is 1 and any other \<open>x ** nan\<close> is NaN; a negative base with an
  exponent that is not whole gives a complex number, of modulus \<open>|x| ** y\<close> and
  argument \<open>pi * y\<close>; zero to a negative power raises.
\<close>

definition is_integral :: "real \<Rightarrow> bool" where
  "is_integral y = (of_int \<lfloor>y\<rfloor> = y)"

definition float_pow :: "real \<Rightarrow> real option \<Rightarrow> exn + pynum" where
  "float_pow x e =
     (case e of
        None \<Rightarrow> Inr (if x = 1 then Float 1 else FloatNaN)
      | Some y \<Rightarrow>
          if y = 0 then Inr (Float 1)
          else if x < 0 \<and> \<not> is_integral y then
            (if \<bar>x\<bar> powr y > dbl_max then Inl OverflowError
             else Inr (Cplx (Complex (\<bar>x\<bar> powr y * cos (pi * y)) (\<bar>x\<bar> powr y * sin (pi * y)))))
          else if x = 0 \<and> y < 0 then Inl ZeroDivisionError
          else
            (let p = (if x < 0 \<and> odd \<lfloor>y\<rfloor> then - (\<bar>x\<bar> powr y) else \<bar>x\<bar> powr y) in
             if \<bar>p\<bar> > dbl_max then Inl OverflowError else Inr (Float p)))"

definition minus_1_times_100 :: "pynum \<Rightarrow> pynum" where
  "minus_1_times_100 p =
     (case p of
        Float r \<Rightarrow>
          if (r - 1) * 100 > dbl_max then FloatInf
          else if (r - 1) * 100 < - dbl_max then FloatNegInf
          else Float ((r - 1) * 100)
      | FloatNaN \<Rightarrow> FloatNaN
      | FloatInf \<Rightarrow> FloatInf
      | FloatNegInf \<Rightarrow> FloatNegInf
      | Cplx z \<Rightarrow> Cplx ((z - 1) * 100))"

definition py_float :: "unit_cell \<Rightarrow> exn + real" where
  "py_float c = (case c of Value (Num x) \<Rightarrow> Inr x | _ \<Rightarrow> Inl ValueError)"

text \<open>
  The body of the \<open>try\<close> (lines 105 to 108), an \<open>Inl\<close> being an exception raised
  in it, and the function with its bare \<open>except\<close> (lines 109 and 110).
\<close>

definition return_body :: "return_row \<Rightarrow> exn + pynum option" where
  "return_body row =
     (case r_scale_date row of None \<Rightarrow> Inl KeyError | Some a \<Rightarrow>
      case r_inception row of None \<Rightarrow> Inl KeyError | Some b \<Rightarrow>
      let days = timedelta_days a b in
      if days_le_zero days then Inr None
      else
        case r_unit_nav row of None \<Rightarrow> Inl KeyError | Some c \<Rightarrow>
        if c = Value NaN then Inr None
        else
          case py_float c of Inl e \<Rightarrow> Inl e | Inr x \<Rightarrow>
          case div_365 days of Inl e \<Rightarrow> Inl e | Inr e \<Rightarrow>
          case float_pow x e of Inl e \<Rightarrow> Inl e | Inr p \<Rightarrow> Inr (Some (minus_1_times_100 p)))"

definition calc_annualized_return :: "return_row \<Rightarrow> pynum option" where
  "calc_annualized_return row = (case return_body row of Inl e \<Rightarrow> None | Inr v \<Rightarrow> v)"

section \<open>The report projector: lines 98 to 100 and 149 to 182\<close>





















section \<open>Lemmas on the tracker\<close>

lemma walk_open_regime:
  "\<forall>r\<in>set rows. is_open r \<Longrightarrow> walk st rows = map (\<lambda>r. Some (scale_date r)) rows"
  by (induction rows arbitrary: st) (simp_all add: step_def Let_def)

lemma step_event_regime:
  assumes "\<not> is_open r" and "fst st \<noteq> Some NaN"
  shows "fst (step r st) \<noteq> Some NaN"
    and "(known_value (fst (step r st)), snd (step r st)) =
         spec_event_step (observation r) (known_value (fst st), snd st)"
  using assms
  by (cases st; cases "fst st"; cases "unit_nav r"; cases "the (fst st)";
      simp add: step_def spec_event_step_def observation_def known_value_def pd_isna_def Let_def)+

lemma walk_event_regime:
  "\<forall>r\<in>set rows. \<not> is_open r \<Longrightarrow> fst st \<noteq> Some NaN \<Longrightarrow>
   walk st rows = spec_event_walk (known_value (fst st), snd st) (map observation rows)"
proof (induction rows arbitrary: st)
  case Nil
  then show ?case by simp
next
  case (Cons r rows)
  have a: "\<not> is_open r" using Cons.prems by simp
  note s = step_event_regime[OF a Cons.prems(2)]
  have e: "spec_event_step (observation r) (known_value (fst st), snd st) =
        (known_value (fst (step r st)), snd (step r st))"
    using s(2) by simp
  have "walk (step r st) rows =
        spec_event_walk (known_value (fst (step r st)), snd (step r st)) (map observation rows)"
    using Cons.IH[of "step r st"] Cons.prems s(1) by simp
  then show ?case by (simp add: Let_def e)
qed

lemma place_mset: "mset (place x xs) = add_mset x (mset xs)"
  by (induction xs) simp_all

lemma stable_sort_values_mset: "mset (stable_sort_values xs) = mset xs"
  by (induction xs) (simp_all add: place_mset)

lemma date_le_total: "date_le a b \<or> date_le b a"
  by (cases a; cases b) auto

lemma date_le_trans: "date_le a b \<Longrightarrow> date_le b c \<Longrightarrow> date_le a c"
  by (cases a; cases b; cases c) auto

lemma place_set: "set (place x xs) = insert x (set xs)"
  by (induction xs) auto

lemma place_sorted:
  "sorted_wrt date_le (map (\<lambda>ir. scale_date (snd ir)) xs) \<Longrightarrow>
   sorted_wrt date_le (map (\<lambda>ir. scale_date (snd ir)) (place x xs))"
proof (induction xs)
  case Nil
  then show ?case by simp
next
  case (Cons y ys)
  show ?case
  proof (cases "date_le (scale_date (snd x)) (scale_date (snd y))")
    case True
    then show ?thesis using Cons.prems by (auto intro: date_le_trans)
  next
    case False
    then have "date_le (scale_date (snd y)) (scale_date (snd x))"
      using date_le_total by blast
    then show ?thesis using False Cons by (auto simp: place_set)
  qed
qed

lemma stable_sort_values_ok: "sorts_by_date stable_sort_values"
  unfolding sorts_by_date_def
proof (intro allI conjI)
  fix xs show "mset (stable_sort_values xs) = mset xs" by (rule stable_sort_values_mset)
  show "sorted_wrt date_le (map (\<lambda>ir. scale_date (snd ir)) (stable_sort_values xs))"
    by (induction xs) (simp_all add: place_sorted)
qed

lemma walk_length: "length (walk st rows) = length rows"
  by (induction rows arbitrary: st) (simp_all add: Let_def)

lemma fold_update_length:
  "length (fold (\<lambda>id res. res[fst id := f (snd id)]) ps res) = length res"
  by (induction ps arbitrary: res) simp_all

lemma fold_update_nth:
  "distinct (map fst ps) \<Longrightarrow> j < length res \<Longrightarrow>
   fold (\<lambda>id res. res[fst id := f (snd id)]) ps res ! j =
     (case map_of ps j of None \<Rightarrow> res ! j | Some d \<Rightarrow> f d)"
proof (induction ps arbitrary: res)
  case Nil
  then show ?case by simp
next
  case (Cons a ps)
  obtain i d where a: "a = (i, d)" by (cases a)
  have none: "map_of ps i = None"
    using Cons.prems(1) a by (simp add: map_of_eq_None_iff)
  have "fold (\<lambda>id res. res[fst id := f (snd id)]) ps (res[i := f d]) ! j =
        (case map_of ps j of None \<Rightarrow> res[i := f d] ! j | Some d \<Rightarrow> f d)"
    using Cons.IH[of "res[i := f d]"] Cons.prems by simp
  then show ?case using a none Cons.prems(2) by (cases "j = i") (simp_all split: option.splits)
qed

lemma group_rows_set:
  "set (group_rows c df) = {(i, df ! i) | i. i < length df \<and> code (df ! i) = Some c}"
  by (auto simp: group_rows_def in_set_enumerate_eq)

lemma group_rows_distinct: "distinct (map fst (group_rows c df))"
  unfolding group_rows_def by (rule distinct_map_filter) simp

lemma sorted_group_set:
  assumes "sorts_by_date srt"
  shows "set (srt (group_rows c df)) = {(i, df ! i) | i. i < length df \<and> code (df ! i) = Some c}"
proof -
  have "mset (srt (group_rows c df)) = mset (group_rows c df)"
    using assms by (simp add: sorts_by_date_def)
  then have "set (srt (group_rows c df)) = set (group_rows c df)"
    by (rule mset_eq_setD)
  then show ?thesis by (simp add: group_rows_set)
qed

lemma sorted_group_distinct:
  assumes "sorts_by_date srt"
  shows "distinct (map fst (srt (group_rows c df)))"
proof -
  have "mset (srt (group_rows c df)) = mset (group_rows c df)"
    using assms by (simp add: sorts_by_date_def)
  then have "mset (map fst (srt (group_rows c df))) = mset (map fst (group_rows c df))"
    by simp
  then show ?thesis
    using group_rows_distinct[of c df] mset_eq_imp_distinct_iff by blast
qed

lemma assign_group_length: "length (assign_group srt df c res) = length res"
  by (simp add: assign_group_def Let_def fold_update_length)

lemma assign_group_hit:
  assumes srt: "sorts_by_date srt" and len: "length res = length df"
    and p: "p < length (srt (group_rows c df))"
  shows "assign_group srt df c res ! fst (srt (group_rows c df) ! p) =
         to_ts (walk (None, None) (map snd (srt (group_rows c df))) ! p)"
proof -
  let ?g = "srt (group_rows c df)"
  let ?dates = "walk (None, None) (map snd ?g)"
  have d: "distinct (map fst ?g)" by (rule sorted_group_distinct[OF srt])
  have l: "length (map fst ?g) = length ?dates" by (simp add: walk_length)
  have "?g ! p \<in> set ?g" using p by simp
  then have j: "fst (?g ! p) < length res"
    using sorted_group_set[OF srt, of c df] len by auto
  have m: "map_of (zip (map fst ?g) ?dates) (map fst ?g ! p) = Some (?dates ! p)"
    using map_of_zip_nth[OF l d] p by (simp add: walk_length)
  have dz: "distinct (map fst (zip (map fst ?g) ?dates))"
    using d l by simp
  show ?thesis
    unfolding assign_group_def Let_def
    using fold_update_nth[OF dz j, of to_ts] m p by simp
qed

lemma assign_group_miss:
  assumes srt: "sorts_by_date srt" and j: "j < length res"
    and other: "j \<notin> fst ` set (srt (group_rows c df))"
  shows "assign_group srt df c res ! j = res ! j"
proof -
  let ?g = "srt (group_rows c df)"
  let ?dates = "walk (None, None) (map snd ?g)"
  have d: "distinct (map fst ?g)" by (rule sorted_group_distinct[OF srt])
  have l: "length (map fst ?g) = length ?dates" by (simp add: walk_length)
  have dz: "distinct (map fst (zip (map fst ?g) ?dates))"
    using d l by simp
  have "map_of (zip (map fst ?g) ?dates) j = None"
    using map_of_zip_is_None[OF l, of j] other by simp
  then show ?thesis
    unfolding assign_group_def Let_def
    using fold_update_nth[OF dz j, of to_ts] by simp
qed

lemma fold_assign_length: "length (fold (assign_group srt df) ks res) = length res"
  by (induction ks arbitrary: res) (simp_all add: assign_group_length)

lemma fold_assign_miss:
  assumes srt: "sorts_by_date srt"
  shows "j < length res \<Longrightarrow> \<forall>k\<in>set ks. j \<notin> fst ` set (srt (group_rows k df)) \<Longrightarrow>
         fold (assign_group srt df) ks res ! j = res ! j"
proof (induction ks arbitrary: res)
  case Nil
  then show ?case by simp
next
  case (Cons k ks)
  have "fold (assign_group srt df) ks (assign_group srt df k res) ! j = assign_group srt df k res ! j"
    using Cons.IH[of "assign_group srt df k res"] Cons.prems by (simp add: assign_group_length)
  then show ?case using assign_group_miss[OF srt Cons.prems(1), of k df] Cons.prems(2) by simp
qed

lemma sorted_group_mem:
  assumes "sorts_by_date srt"
  shows "(j, r) \<in> set (srt (group_rows c df)) \<longleftrightarrow>
         j < length df \<and> r = df ! j \<and> code (df ! j) = Some c"
  unfolding sorted_group_set[OF assms] by blast

lemma other_group_miss:
  assumes srt: "sorts_by_date srt" and "k \<noteq> c" and "(j, r) \<in> set (srt (group_rows c df))"
  shows "j \<notin> fst ` set (srt (group_rows k df))"
proof
  assume "j \<in> fst ` set (srt (group_rows k df))"
  then obtain r' where "(j, r') \<in> set (srt (group_rows k df))" by force
  then have "code (df ! j) = Some k" by (simp add: sorted_group_mem[OF srt])
  moreover have "code (df ! j) = Some c" using assms(3) by (simp add: sorted_group_mem[OF srt])
  ultimately show False using assms(2) by simp
qed

lemma fold_assign_hit:
  assumes srt: "sorts_by_date srt" and p: "p < length (srt (group_rows c df))"
  shows "length res = length df \<Longrightarrow> distinct ks \<Longrightarrow> c \<in> set ks \<Longrightarrow>
         fold (assign_group srt df) ks res ! fst (srt (group_rows c df) ! p) =
         to_ts (walk (None, None) (map snd (srt (group_rows c df))) ! p)"
proof (induction ks arbitrary: res)
  case Nil
  then show ?case by simp
next
  case (Cons k ks)
  let ?g = "srt (group_rows c df)"
  let ?j = "fst (?g ! p)"
  have mem: "(?j, snd (?g ! p)) \<in> set ?g" using p by simp
  then have j: "?j < length df"
    using sorted_group_mem[OF srt, of ?j "snd (?g ! p)" c df] by blast
  show ?case
  proof (cases "k = c")
    case True
    then have notin: "c \<notin> set ks" using Cons.prems(2) by simp
    have "\<forall>k'\<in>set ks. ?j \<notin> fst ` set (srt (group_rows k' df))"
    proof
      fix k' assume "k' \<in> set ks"
      then have ne: "k' \<noteq> c" using notin by blast
      show "?j \<notin> fst ` set (srt (group_rows k' df))"
        by (rule other_group_miss[OF srt ne mem])
    qed
    then have "fold (assign_group srt df) ks (assign_group srt df c res) ! ?j =
               assign_group srt df c res ! ?j"
      using fold_assign_miss[OF srt, of ?j "assign_group srt df c res" ks df] j Cons.prems(1)
      by (simp add: assign_group_length)
    then show ?thesis
      using True assign_group_hit[OF srt Cons.prems(1) p] by simp
  next
    case False
    then have "c \<in> set ks" using Cons.prems(3) by simp
    then show ?thesis
      using Cons.IH[of "assign_group srt df k res"] Cons.prems(1,2)
      by (simp add: assign_group_length)
  qed
qed

lemma group_keys_set: "set (group_keys df) = {c. \<exists>r\<in>set df. code r = Some c}"
  by (auto simp: group_keys_def split: option.splits)

lemma group_keys_distinct: "distinct (group_keys df)"
  by (simp add: group_keys_def)

lemma step_cases:
  "step r st = st \<and> fst st \<noteq> None \<or> snd (step r st) = Some (scale_date r)"
  by (simp add: step_def Let_def)

lemma walk_source:
  "p < length rows \<Longrightarrow>
   (walk st rows ! p = snd st \<and> fst st \<noteq> None) \<or>
   (\<exists>q\<le>p. walk st rows ! p = Some (scale_date (rows ! q)))"
proof (induction rows arbitrary: st p)
  case Nil
  then show ?case by simp
next
  case (Cons r rows)
  show ?case
  proof (cases p)
    case 0
    then show ?thesis using step_cases[of r st] by (auto simp: Let_def)
  next
    case (Suc p')
    then have p': "p' < length rows" using Cons.prems by simp
    have w: "walk st (r # rows) ! p = walk (step r st) rows ! p'"
      using Suc by (simp add: Let_def)
    from Cons.IH[OF p', of "step r st"]
    consider (carry) "walk (step r st) rows ! p' = snd (step r st)" "fst (step r st) \<noteq> None"
      | (fresh) q where "q \<le> p'" "walk (step r st) rows ! p' = Some (scale_date (rows ! q))"
      by blast
    then show ?thesis
    proof cases
      case carry
      from step_cases[of r st] show ?thesis
      proof
        assume "step r st = st \<and> fst st \<noteq> None"
        then show ?thesis using carry w by simp
      next
        assume "snd (step r st) = Some (scale_date r)"
        then have "walk st (r # rows) ! p = Some (scale_date ((r # rows) ! 0))"
          using carry w by simp
        then show ?thesis by blast
      qed
    next
      case fresh
      then have "walk st (r # rows) ! p = Some (scale_date ((r # rows) ! Suc q))" "Suc q \<le> p"
        using w Suc by simp_all
      then show ?thesis by blast
    qed
  qed
qed

lemma date_le_refl: "date_le a a"
  by (cases a) simp_all

lemma sorted_dates_nth:
  assumes "sorted_wrt date_le (map f xs)" and "q \<le> p" and "p < length xs"
  shows "date_le (f (xs ! q)) (f (xs ! p))"
proof (cases "q = p")
  case True
  then show ?thesis by (simp add: date_le_refl)
next
  case False
  then have "q < p" using assms(2) by simp
  then have "date_le (map f xs ! q) (map f xs ! p)"
    using assms(1,3) by (simp add: sorted_wrt_iff_nth_less)
  then show ?thesis using assms(2,3) by simp
qed

lemma assign_at_sorted_position:
  assumes srt: "sorts_by_date srt" and p: "p < length (srt (group_rows c df))"
  shows "assign_nav_disclosure_dates srt df ! fst (srt (group_rows c df) ! p) =
         to_ts (walk (None, None) (map snd (srt (group_rows c df))) ! p)"
proof -
  have "srt (group_rows c df) ! p \<in> set (srt (group_rows c df))" using p by simp
  then have "(fst (srt (group_rows c df) ! p), snd (srt (group_rows c df) ! p))
             \<in> set (srt (group_rows c df))" by simp
  then have "code (df ! fst (srt (group_rows c df) ! p)) = Some c"
        and "fst (srt (group_rows c df) ! p) < length df"
    using sorted_group_mem[OF srt, of "fst (srt (group_rows c df) ! p)" "snd (srt (group_rows c df) ! p)" c df]
    by blast+
  then have "c \<in> set (group_keys df)"
    unfolding group_keys_set using nth_mem by blast
  then show ?thesis
    unfolding assign_nav_disclosure_dates_def
    using fold_assign_hit[OF srt p _ group_keys_distinct] by simp
qed

lemma assign_missing_code:
  assumes srt: "sorts_by_date srt" and i: "i < length df" and n: "code (df ! i) = None"
  shows "assign_nav_disclosure_dates srt df ! i = NaT"
proof -
  have "\<forall>k\<in>set (group_keys df). i \<notin> fst ` set (srt (group_rows k df))"
  proof
    fix k assume "k \<in> set (group_keys df)"
    show "i \<notin> fst ` set (srt (group_rows k df))"
    proof
      assume "i \<in> fst ` set (srt (group_rows k df))"
      then obtain r where "(i, r) \<in> set (srt (group_rows k df))" by force
      then have "code (df ! i) = Some k" by (simp add: sorted_group_mem[OF srt])
      then show False using n by simp
    qed
  qed
  then show ?thesis
    unfolding assign_nav_disclosure_dates_def
    using fold_assign_miss[OF srt, of i "replicate (length df) NaT" "group_keys df" df] i by simp
qed

lemma sorted_position_of_row:
  assumes srt: "sorts_by_date srt" and i: "i < length df" and c: "code (df ! i) = Some c"
  shows "\<exists>p < length (srt (group_rows c df)). srt (group_rows c df) ! p = (i, df ! i)"
proof -
  have "(i, df ! i) \<in> set (srt (group_rows c df))"
    using i c by (simp add: sorted_group_mem[OF srt])
  then show ?thesis by (simp add: in_set_conv_nth)
qed

section \<open>Claims on the disclosure tracker\<close>

text \<open>
  C1. Event regime. For a product none of whose rows carries the open-ended marker, the
  walk of the code over the rows sorted by date is the walk of the specification, started
  from \<open>(null, null)\<close>: the effective value is the current unit value, or the last
  known value when the current one is null; value and date are replaced exactly when the
  last known value is null or differs from the effective value; each row receives the
  date held after its step. Values 1.00, 1.00, 1.05, 1.05 emit the dates of rows 1, 1, 3, 3
  and values 1.00, null, 1.05 emit the dates of rows 1, 1, 3.
\<close>

theorem tracker_event_regime:
  assumes srt: "sorts_by_date srt"
    and ev: "\<forall>r\<in>set df. code r = Some c \<longrightarrow> \<not> is_open r"
  shows "walk (None, None) (map snd (srt (group_rows c df))) =
           spec_event_walk (None, None) (map (\<lambda>ir. observation (snd ir)) (srt (group_rows c df))) \<and>
         (\<forall>p < length (srt (group_rows c df)).
            assign_nav_disclosure_dates srt df ! fst (srt (group_rows c df) ! p) =
            to_ts (spec_event_walk (None, None)
                     (map (\<lambda>ir. observation (snd ir)) (srt (group_rows c df))) ! p)) \<and>
         (\<forall>r1 r2 r3 r4. \<not> is_open r1 \<and> \<not> is_open r2 \<and> \<not> is_open r3 \<and> \<not> is_open r4 \<and>
            unit_nav r1 = Num 1.00 \<and> unit_nav r2 = Num 1.00 \<and>
            unit_nav r3 = Num 1.05 \<and> unit_nav r4 = Num 1.05 \<longrightarrow>
            walk (None, None) [r1, r2, r3, r4] =
              [Some (scale_date r1), Some (scale_date r1), Some (scale_date r3), Some (scale_date r3)]) \<and>
         (\<forall>r1 r2 r3. \<not> is_open r1 \<and> \<not> is_open r2 \<and> \<not> is_open r3 \<and>
            unit_nav r1 = Num 1.00 \<and> unit_nav r2 = NaN \<and> unit_nav r3 = Num 1.05 \<longrightarrow>
            walk (None, None) [r1, r2, r3] =
              [Some (scale_date r1), Some (scale_date r1), Some (scale_date r3)])"
proof (intro conjI allI impI)
  let ?g = "srt (group_rows c df)"
  have allev: "\<forall>r\<in>set (map snd ?g). \<not> is_open r"
  proof
    fix r assume "r \<in> set (map snd ?g)"
    then obtain j where "(j, r) \<in> set ?g" by force
    then have "j < length df \<and> r = df ! j \<and> code (df ! j) = Some c"
      by (simp add: sorted_group_mem[OF srt])
    then show "\<not> is_open r" using ev nth_mem by metis
  qed
  show w: "walk (None, None) (map snd ?g) =
           spec_event_walk (None, None) (map (\<lambda>ir. observation (snd ir)) ?g)"
    using walk_event_regime[OF allev, of "(None, None)"] by (simp add: known_value_def comp_def)
  fix p assume "p < length ?g"
  then show "assign_nav_disclosure_dates srt df ! fst (?g ! p) =
            to_ts (spec_event_walk (None, None) (map (\<lambda>ir. observation (snd ir)) ?g) ! p)"
    using assign_at_sorted_position[OF srt] w by simp
next
  fix r1 r2 r3 r4
  assume "\<not> is_open r1 \<and> \<not> is_open r2 \<and> \<not> is_open r3 \<and> \<not> is_open r4 \<and>
            unit_nav r1 = Num 1.00 \<and> unit_nav r2 = Num 1.00 \<and>
            unit_nav r3 = Num 1.05 \<and> unit_nav r4 = Num 1.05"
  then show "walk (None, None) [r1, r2, r3, r4] =
              [Some (scale_date r1), Some (scale_date r1), Some (scale_date r3), Some (scale_date r3)]"
    by (simp add: step_def Let_def pd_isna_def)
next
  fix r1 r2 r3
  assume "\<not> is_open r1 \<and> \<not> is_open r2 \<and> \<not> is_open r3 \<and>
            unit_nav r1 = Num 1.00 \<and> unit_nav r2 = NaN \<and> unit_nav r3 = Num 1.05"
  then show "walk (None, None) [r1, r2, r3] =
              [Some (scale_date r1), Some (scale_date r1), Some (scale_date r3)]"
    by (simp add: step_def Let_def pd_isna_def)
qed

theorem tracker_event_regime_witness:
  "sorts_by_date stable_sort_values \<and>
   list_all (\<lambda>r. code r = Some [65] \<and> \<not> is_open r) event_frame \<and>
   map (\<lambda>i. assign_nav_disclosure_dates stable_sort_values event_frame ! i) [0, 1, 2, 3] =
     [Day 3, Day 1, Day 3, Day 1]"
proof -
  have h1: "sorts_by_date stable_sort_values" by (rule stable_sort_values_ok)
  have h2: "\<forall>r\<in>set event_frame. code r = Some [65] \<longrightarrow> \<not> is_open r"
    by (simp add: event_frame_def is_open_def astype_str_def open_marker_def)
  have g: "stable_sort_values (group_rows [65] event_frame) =
     [(1, event_frame ! 1), (3, event_frame ! 3), (0, event_frame ! 0), (2, event_frame ! 2)]"
    by (simp add: event_frame_def group_rows_def enumerate_eq_zip upt_rec)
  have w: "spec_event_walk (None, None)
             (map (\<lambda>ir. observation (snd ir)) (stable_sort_values (group_rows [65] event_frame))) =
           [Some (Day 1), Some (Day 1), Some (Day 3), Some (Day 3)]"
    unfolding g by (simp add: event_frame_def observation_def spec_event_step_def Let_def)
  have "\<forall>p<4. assign_nav_disclosure_dates stable_sort_values event_frame !
                fst ([(1, event_frame ! 1), (3, event_frame ! 3), (0, event_frame ! 0), (2, event_frame ! 2)] ! p) =
              to_ts ([Some (Day 1), Some (Day 1), Some (Day 3), Some (Day 3)] ! p)"
    using tracker_event_regime[OF h1 h2] unfolding w unfolding g by simp
  note A = this [rule_format]
  have "assign_nav_disclosure_dates stable_sort_values event_frame ! 1 = Day 1"
    using A[of 0] by (simp add: to_ts_def)
  moreover have "assign_nav_disclosure_dates stable_sort_values event_frame ! 3 = Day 1"
    using A[of 1] by (simp add: to_ts_def)
  moreover have "assign_nav_disclosure_dates stable_sort_values event_frame ! 0 = Day 3"
    using A[of 2] by (simp add: to_ts_def)
  moreover have "assign_nav_disclosure_dates stable_sort_values event_frame ! 2 = Day 3"
    using A[of 3] by (simp add: to_ts_def)
  moreover have "list_all (\<lambda>r. code r = Some [65] \<and> \<not> is_open r) event_frame"
    by (simp add: event_frame_def is_open_def astype_str_def open_marker_def)
  ultimately show ?thesis using h1 by simp
qed

text \<open>
  C5. Open regime. For a product all of whose rows carry the open-ended marker, every row
  receives its own reporting date, whatever the unit values, and each step replaces the
  tracked state by the value and date of the current row.
\<close>

theorem tracker_open_regime:
  assumes srt: "sorts_by_date srt"
    and op: "\<forall>r\<in>set df. code r = Some c \<longrightarrow> is_open r"
  shows "(\<forall>i < length df. code (df ! i) = Some c \<longrightarrow>
            assign_nav_disclosure_dates srt df ! i = scale_date (df ! i)) \<and>
         walk (None, None) (map snd (srt (group_rows c df))) =
            map (\<lambda>ir. Some (scale_date (snd ir))) (srt (group_rows c df)) \<and>
         (\<forall>r st. is_open r \<longrightarrow> step r st = (Some (unit_nav r), Some (scale_date r)))"
proof (intro conjI allI impI)
  let ?g = "srt (group_rows c df)"
  have allopen: "\<forall>r\<in>set (map snd ?g). is_open r"
  proof
    fix r assume "r \<in> set (map snd ?g)"
    then obtain j where "(j, r) \<in> set ?g" by force
    then have "j < length df \<and> r = df ! j \<and> code (df ! j) = Some c"
      by (simp add: sorted_group_mem[OF srt])
    then show "is_open r" using op nth_mem by metis
  qed
  show w: "walk (None, None) (map snd ?g) = map (\<lambda>ir. Some (scale_date (snd ir))) ?g"
    using walk_open_regime[OF allopen, of "(None, None)"] by (simp add: comp_def)
  fix i assume i: "i < length df" and c: "code (df ! i) = Some c"
  obtain p where p: "p < length ?g" and gp: "?g ! p = (i, df ! i)"
    using sorted_position_of_row[OF srt i c] by blast
  show "assign_nav_disclosure_dates srt df ! i = scale_date (df ! i)"
    using assign_at_sorted_position[OF srt p] gp p w by (simp add: to_ts_def)
next
  fix r st assume "is_open r"
  then show "step r st = (Some (unit_nav r), Some (scale_date r))"
    by (simp add: step_def Let_def)
qed

theorem tracker_open_regime_witness:
  "sorts_by_date stable_sort_values \<and>
   list_all (\<lambda>r. code r = Some [66] \<and> is_open r) open_frame \<and>
   map (\<lambda>i. assign_nav_disclosure_dates stable_sort_values open_frame ! i) [0, 1, 2] =
     [Day 2, Day 1, Day 3]"
proof -
  have h1: "sorts_by_date stable_sort_values" by (rule stable_sort_values_ok)
  have h2: "\<forall>r\<in>set open_frame. code r = Some [66] \<longrightarrow> is_open r"
    by (simp add: open_frame_def is_open_def astype_str_def open_marker_def)
  have A: "i < length open_frame \<Longrightarrow> code (open_frame ! i) = Some [66] \<Longrightarrow>
           assign_nav_disclosure_dates stable_sort_values open_frame ! i = scale_date (open_frame ! i)" for i
    using tracker_open_regime[OF h1 h2] by blast
  have "assign_nav_disclosure_dates stable_sort_values open_frame ! 0 = Day 2"
    using A[of 0] by (simp add: open_frame_def)
  moreover have "assign_nav_disclosure_dates stable_sort_values open_frame ! 1 = Day 1"
    using A[of 1] by (simp add: open_frame_def)
  moreover have "assign_nav_disclosure_dates stable_sort_values open_frame ! 2 = Day 3"
    using A[of 2] by (simp add: open_frame_def)
  moreover have "list_all (\<lambda>r. code r = Some [66] \<and> is_open r) open_frame"
    by (simp add: open_frame_def is_open_def astype_str_def open_marker_def)
  ultimately show ?thesis using h1 by simp
qed

text \<open>
  C6. Output alignment. The result has one entry for each row of the input. Every row of a
  product occurs exactly once in the sorted group of its product, and the date emitted at
  a place of the sorted walk is stored at the original position of the row walked there.
  A row without a product code belongs to no group and keeps \<open>NaT\<close>.
\<close>

theorem tracker_output_alignment:
  assumes "sorts_by_date srt"
  shows "length (assign_nav_disclosure_dates srt df) = length df \<and>
    (\<forall>c. distinct (map fst (srt (group_rows c df))) \<and>
         set (map fst (srt (group_rows c df))) = {i. i < length df \<and> code (df ! i) = Some c}) \<and>
    (\<forall>c. \<forall>p < length (srt (group_rows c df)).
         assign_nav_disclosure_dates srt df ! fst (srt (group_rows c df) ! p) =
         to_ts (walk (None, None) (map snd (srt (group_rows c df))) ! p)) \<and>
    (\<forall>i < length df. code (df ! i) = None \<longrightarrow> assign_nav_disclosure_dates srt df ! i = NaT)"
proof (intro conjI allI impI)
  show "length (assign_nav_disclosure_dates srt df) = length df"
    by (simp add: assign_nav_disclosure_dates_def fold_assign_length)
next
  fix c show "distinct (map fst (srt (group_rows c df)))"
    by (rule sorted_group_distinct[OF assms])
next
  fix c
  show "set (map fst (srt (group_rows c df))) = {i. i < length df \<and> code (df ! i) = Some c}"
  proof (intro set_eqI iffI)
    fix i assume "i \<in> set (map fst (srt (group_rows c df)))"
    then obtain r where "(i, r) \<in> set (srt (group_rows c df))" by force
    then show "i \<in> {i. i < length df \<and> code (df ! i) = Some c}"
      by (simp add: sorted_group_mem[OF assms])
  next
    fix i assume "i \<in> {i. i < length df \<and> code (df ! i) = Some c}"
    then have "(i, df ! i) \<in> set (srt (group_rows c df))"
      by (simp add: sorted_group_mem[OF assms])
    then show "i \<in> set (map fst (srt (group_rows c df)))" by force
  qed
next
  fix c p assume "p < length (srt (group_rows c df))"
  then show "assign_nav_disclosure_dates srt df ! fst (srt (group_rows c df) ! p) =
         to_ts (walk (None, None) (map snd (srt (group_rows c df))) ! p)"
    by (rule assign_at_sorted_position[OF assms])
next
  fix i assume "i < length df" "code (df ! i) = None"
  then show "assign_nav_disclosure_dates srt df ! i = NaT"
    by (rule assign_missing_code[OF assms])
qed

theorem tracker_output_alignment_witness:
  "sorts_by_date stable_sort_values \<and>
   length (assign_nav_disclosure_dates stable_sort_values mixed_frame) = 4 \<and>
   map (\<lambda>i. assign_nav_disclosure_dates stable_sort_values mixed_frame ! i) [0, 1, 2, 3] =
     [Day 1, Day 2, NaT, Day 1]"
proof -
  have h1: "sorts_by_date stable_sort_values" by (rule stable_sort_values_ok)
  note t = tracker_output_alignment[OF h1, of mixed_frame]
  have l: "length (assign_nav_disclosure_dates stable_sort_values mixed_frame) = 4"
    using t by (simp add: mixed_frame_def)
  have ga: "stable_sort_values (group_rows [65] mixed_frame) =
      [(3, mixed_frame ! 3), (0, mixed_frame ! 0)]"
    by (simp add: mixed_frame_def group_rows_def enumerate_eq_zip upt_rec)
  have gb: "stable_sort_values (group_rows [66] mixed_frame) = [(1, mixed_frame ! 1)]"
    by (simp add: mixed_frame_def group_rows_def enumerate_eq_zip upt_rec)
  have A: "p < length (stable_sort_values (group_rows c mixed_frame)) \<Longrightarrow>
         assign_nav_disclosure_dates stable_sort_values mixed_frame !
           fst (stable_sort_values (group_rows c mixed_frame) ! p) =
         to_ts (walk (None, None) (map snd (stable_sort_values (group_rows c mixed_frame))) ! p)" for c p
    using t by blast
  have B: "i < length mixed_frame \<Longrightarrow> code (mixed_frame ! i) = None \<Longrightarrow>
           assign_nav_disclosure_dates stable_sort_values mixed_frame ! i = NaT" for i
    using t by blast
  have "assign_nav_disclosure_dates stable_sort_values mixed_frame ! 3 = Day 1"
    using A[of 0 "[65]"] unfolding ga
    by (simp add: mixed_frame_def step_def Let_def is_open_def astype_str_def open_marker_def
        pd_isna_def to_ts_def)
  moreover have "assign_nav_disclosure_dates stable_sort_values mixed_frame ! 0 = Day 1"
    using A[of 1 "[65]"] unfolding ga
    by (simp add: mixed_frame_def step_def Let_def is_open_def astype_str_def open_marker_def
        pd_isna_def to_ts_def)
  moreover have "assign_nav_disclosure_dates stable_sort_values mixed_frame ! 1 = Day 2"
    using A[of 0 "[66]"] unfolding gb
    by (simp add: mixed_frame_def step_def Let_def is_open_def astype_str_def open_marker_def
        pd_isna_def to_ts_def)
  moreover have "assign_nav_disclosure_dates stable_sort_values mixed_frame ! 2 = NaT"
    using B[of 2] by (simp add: mixed_frame_def)
  ultimately show ?thesis using h1 l by simp
qed

text \<open>
  C10. Provenance. The date a row receives is the reporting date of a row of the same
  product standing at or before it in the sorted walk, and when both dates are known it
  is not later than the row's own reporting date.
\<close>

theorem tracker_date_provenance:
  assumes srt: "sorts_by_date srt" and i: "i < length df" and c: "code (df ! i) = Some c"
  shows "\<exists>p q. q \<le> p \<and> p < length (srt (group_rows c df)) \<and>
           fst (srt (group_rows c df) ! p) = i \<and>
           code (snd (srt (group_rows c df) ! q)) = Some c \<and>
           assign_nav_disclosure_dates srt df ! i = scale_date (snd (srt (group_rows c df) ! q)) \<and>
           (\<forall>d e. assign_nav_disclosure_dates srt df ! i = Day d \<longrightarrow> scale_date (df ! i) = Day e \<longrightarrow> d \<le> e)"
proof -
  let ?g = "srt (group_rows c df)"
  obtain p where p: "p < length ?g" and gp: "?g ! p = (i, df ! i)"
    using sorted_position_of_row[OF assms] by blast
  have a: "assign_nav_disclosure_dates srt df ! i = to_ts (walk (None, None) (map snd ?g) ! p)"
    using assign_at_sorted_position[OF srt p] gp by simp
  have "p < length (map snd ?g)" using p by simp
  from walk_source[OF this, of "(None, None)"]
  obtain q where q: "q \<le> p" and wq: "walk (None, None) (map snd ?g) ! p = Some (scale_date (map snd ?g ! q))"
    by auto
  have ql: "q < length ?g" using q p by simp
  have e: "assign_nav_disclosure_dates srt df ! i = scale_date (snd (?g ! q))"
    using a wq ql by (simp add: to_ts_def)
  have "(fst (?g ! q), snd (?g ! q)) \<in> set ?g" using ql by simp
  then have cq: "code (snd (?g ! q)) = Some c"
    using sorted_group_mem[OF srt, of "fst (?g ! q)" "snd (?g ! q)" c df] by metis
  have "sorted_wrt date_le (map (\<lambda>ir. scale_date (snd ir)) ?g)"
    using srt by (simp add: sorts_by_date_def)
  from sorted_dates_nth[OF this q p]
  have le: "date_le (scale_date (snd (?g ! q))) (scale_date (df ! i))" using gp by simp
  have "\<forall>d e. assign_nav_disclosure_dates srt df ! i = Day d \<longrightarrow> scale_date (df ! i) = Day e \<longrightarrow> d \<le> e"
    using le e by auto
  then show ?thesis using q p gp cq e by (metis fst_conv)
qed

theorem tracker_date_provenance_witness:
  "sorts_by_date stable_sort_values \<and> 3 < length event_frame \<and>
   code (event_frame ! 3) = Some [65] \<and> scale_date (event_frame ! 3) = Day 2 \<and>
   (\<exists>r\<in>set event_frame. code r = Some [65] \<and>
      assign_nav_disclosure_dates stable_sort_values event_frame ! 3 = scale_date r) \<and>
   (\<exists>d. assign_nav_disclosure_dates stable_sort_values event_frame ! 3 = Day d \<and> d \<le> 2)"
proof -
  have h1: "sorts_by_date stable_sort_values" by (rule stable_sort_values_ok)
  have h2: "3 < length event_frame" by (simp add: event_frame_def)
  have h3: "code (event_frame ! 3) = Some [65]" by (simp add: event_frame_def)
  have h4: "scale_date (event_frame ! 3) = Day 2" by (simp add: event_frame_def)
  let ?g = "stable_sort_values (group_rows [65] event_frame)"
  obtain p q where pq: "q \<le> p" "p < length ?g" "code (snd (?g ! q)) = Some [65]"
      "assign_nav_disclosure_dates stable_sort_values event_frame ! 3 = scale_date (snd (?g ! q))"
      "\<forall>d e. assign_nav_disclosure_dates stable_sort_values event_frame ! 3 = Day d \<longrightarrow>
             scale_date (event_frame ! 3) = Day e \<longrightarrow> d \<le> e"
    using tracker_date_provenance[OF h1 h2 h3] by blast
  have "(fst (?g ! q), snd (?g ! q)) \<in> set ?g" using pq(1,2) by simp
  then have "snd (?g ! q) \<in> set event_frame"
    using sorted_group_mem[OF h1, of "fst (?g ! q)" "snd (?g ! q)" "[65]" event_frame] by simp
  then have ex: "\<exists>r\<in>set event_frame. code r = Some [65] \<and>
      assign_nav_disclosure_dates stable_sort_values event_frame ! 3 = scale_date r"
    using pq(3,4) by blast
  then obtain d where d: "assign_nav_disclosure_dates stable_sort_values event_frame ! 3 = Day d"
    by (auto simp: event_frame_def)
  then have "d \<le> 2" using pq(5) h4 by blast
  then show ?thesis using h1 h2 h3 h4 ex d by blast
qed

section \<open>Lemmas on the date normalizer\<close>

lemma in_bounds_midnight: "in_bounds n \<longleftrightarrow> stamp_in_bounds n 0"
  by (auto simp: in_bounds_def stamp_in_bounds_def)

lemma digit_val_digit_char: "j < 10 \<Longrightarrow> digit_val (digit_char j) = j"
  by (simp add: digit_val_def digit_char_def)

lemma is_digit_digit_char: "j < 10 \<Longrightarrow> is_digit (digit_char j)"
  by (simp add: is_digit_def digit_char_def)

lemma not_space_digit_char: "j < 10 \<Longrightarrow> \<not> is_space (digit_char j)"
  by (simp add: is_space_def digit_char_def Let_def)

lemma nat_of_digits_snoc: "nat_of_digits (xs @ [c]) = 10 * nat_of_digits xs + digit_val c"
  by (simp add: nat_of_digits_def)

lemma nat_of_digits_pad: "nat_of_digits (pad n k) = k mod 10 ^ n"
proof (induction n arbitrary: k)
  case 0
  then show ?case by (simp add: nat_of_digits_def)
next
  case (Suc n)
  have "nat_of_digits (pad (Suc n) k) = 10 * (k div 10 mod 10 ^ n) + k mod 10"
    by (simp add: nat_of_digits_snoc Suc.IH digit_val_digit_char)
  also have "\<dots> = k mod (10 * 10 ^ n)"
    by (simp add: mod_mult2_eq)
  finally show ?case by simp
qed

lemma length_pad: "length (pad n k) = n"
  by (induction n arbitrary: k) simp_all

lemma year_of_in_bounds:
  assumes v: "valid_date y m d" and b: "in_bounds (days_from_civil y m d)"
  shows "1600 \<le> y \<and> y \<le> 2400"
proof -
  define y' where "y' = (if m \<le> 2 then y - 1 else y)"
  define era where "era = y' div 400"
  define yoe where "yoe = y' mod 400"
  define mp where "mp = (if m > 2 then m - 3 else m + 9)"
  define doy where "doy = (153 * mp + 2) div 5 + d - 1"
  have m: "1 \<le> m" "m \<le> 12" and d: "1 \<le> d" "d \<le> 31"
    using v by (auto simp: valid_date_def days_in_month_def split: if_splits)
  have mp: "0 \<le> mp" "mp \<le> 11" using m by (auto simp: mp_def)
  have q: "0 \<le> (153 * mp + 2) div 5" "(153 * mp + 2) div 5 \<le> 337" using mp by linarith+
  have doy: "0 \<le> doy" "doy \<le> 367" using q d by (auto simp: doy_def)
  have yoe: "0 \<le> yoe" "yoe < 400" by (auto simp: yoe_def)
  have yq: "0 \<le> yoe div 4" "yoe div 4 \<le> 99" "0 \<le> yoe div 100" "yoe div 100 \<le> 3"
    using yoe by linarith+
  have split: "y' = era * 400 + yoe" by (simp add: era_def yoe_def)
  have yoe': "y' - era * 400 = yoe" using split by simp
  have n: "days_from_civil y m d = era * 146097 + (yoe * 365 + yoe div 4 - yoe div 100 + doy) - 719468"
    unfolding days_from_civil_def Let_def
    by (simp only: y'_def[symmetric] era_def[symmetric] yoe' mp_def[symmetric] doy_def[symmetric])
  have lo: "- 106751 \<le> era * 146097 + (yoe * 365 + yoe div 4 - yoe div 100 + doy) - 719468"
   and hi: "era * 146097 + (yoe * 365 + yoe div 4 - yoe div 100 + doy) - 719468 \<le> 106751"
    using b unfolding n in_bounds_def by simp_all
  have "4 \<le> era" using lo yoe yq doy by linarith
  moreover have "era \<le> 5" using hi yoe yq doy by linarith
  ultimately have "1600 \<le> y'" "y' < 2400" using split yoe by linarith+
  then show ?thesis by (auto simp: y'_def split: if_splits)
qed

lemma all_digits_pad: "list_all is_digit (pad n k)"
  by (induction n arbitrary: k) (simp_all add: is_digit_digit_char)

lemma pad_4: "pad 4 k = [digit_char (k div 1000 mod 10), digit_char (k div 100 mod 10),
                         digit_char (k div 10 mod 10), digit_char (k mod 10)]"
proof -
  have e: "(4::nat) = Suc (Suc (Suc (Suc 0)))" by simp
  show ?thesis by (subst e) (simp add: div_mult2_eq[symmetric])
qed

lemma strip_unchanged:
  assumes "\<not> is_space c" and "\<not> is_space e"
  shows "strip (c # cs @ [e]) = c # cs @ [e]"
  using assms by (simp add: strip_def)

lemma py_str_date_shape:
  "py_str (Date y m d) =
     pad 4 (nat y) @ CHR ''-'' # pad 2 (nat m) @ CHR ''-'' # pad 2 (nat d) @ '' 00:00:00''"
  by (simp add: py_str_def)

lemma strip_py_str_date: "strip (py_str (Date y m d)) = py_str (Date y m d)"
proof -
  define j where "j = nat y div 1000 mod 10"
  define cs where "cs = [digit_char (nat y div 100 mod 10), digit_char (nat y div 10 mod 10),
                         digit_char (nat y mod 10)]"
  have j: "j < 10" by (simp add: j_def)
  have p: "pad 4 (nat y) = digit_char j # cs" by (simp add: pad_4 j_def cs_def)
  have "py_str (Date y m d) =
        digit_char j # (cs @ CHR ''-'' # pad 2 (nat m) @ CHR ''-'' # pad 2 (nat d) @ '' 00:00:0'') @ [CHR ''0'']"
    by (simp add: py_str_date_shape p)
  moreover have "\<not> is_space (digit_char j)" using j by (rule not_space_digit_char)
  moreover have "\<not> is_space CHR ''0''" by (simp add: is_space_def)
  ultimately show ?thesis using strip_unchanged by metis
qed

lemma length_py_str_date: "length (py_str (Date y m d)) = 19"
  by (simp add: py_str_date_shape length_pad)

lemma parse_iso_py_str_date:
  assumes v: "valid_date y m d" and b: "in_bounds (days_from_civil y m d)"
  shows "parse_iso (py_str (Date y m d)) = Some (Timestamp y m d 0)"
proof -
  let ?t = "py_str (Date y m d)"
  have yb: "0 \<le> y" "y < 10000" using year_of_in_bounds[OF v b] by auto
  have mb: "0 \<le> m" "m < 100" and db: "0 \<le> d" "d < 100"
    using v by (auto simp: valid_date_def days_in_month_def split: if_splits)
  have f: "field 0 4 ?t = pad 4 (nat y)" "field 5 2 ?t = pad 2 (nat m)"
          "field 8 2 ?t = pad 2 (nat d)" "field 11 2 ?t = ''00''"
          "field 14 2 ?t = ''00''" "field 17 2 ?t = ''00''"
    by (simp_all add: field_def py_str_date_shape length_pad)
  have sep: "?t ! 4 = CHR ''-''" "?t ! 7 = CHR ''-''" "?t ! 10 = CHR '' ''"
            "?t ! 13 = CHR '':''" "?t ! 16 = CHR '':''"
    by (simp_all add: py_str_date_shape nth_append length_pad)
  have z: "nat_of_digits ''00'' = 0" "is_digit CHR ''0''"
    by (simp_all add: nat_of_digits_def digit_val_def is_digit_def)
  have n: "int (nat_of_digits (pad 4 (nat y))) = y" "int (nat_of_digits (pad 2 (nat m))) = m"
          "int (nat_of_digits (pad 2 (nat d))) = d"
    using yb mb db by (simp_all add: nat_of_digits_pad)
  show ?thesis
    unfolding parse_iso_def
    by (simp add: length_py_str_date sep f z n all_digits_pad v in_bounds_midnight[THEN iffD1, OF b] Let_def)
qed

lemma convert_date:
  assumes v: "valid_date y m d" and b: "in_bounds (days_from_civil y m d)"
  shows "convert lib (Date y m d) = Inr (Timestamp y m d 0)"
  by (simp add: convert_def attempt_def pd_isna_raw_def strip_py_str_date fullmatch_digits_def
      length_py_str_date to_datetime_generic_def parse_iso_py_str_date[OF v b] Let_def)

lemma floor_D_in_bounds:
  "in_bounds (days_from_civil y m d) \<Longrightarrow> floor_D lib (Timestamp y m d ns) = Inr (Midnight y m d)"
  by (simp add: floor_D_def in_bounds_midnight)




lemma convert_never_raises:
  "(\<exists>t. convert lib v = Inr t) \<and> convert lib Null = Inr PdNaT \<and> convert lib (Text []) = Inr PdNaT \<and>
   (exhausted lib v \<longrightarrow> convert lib v = Inr PdNaT)"
  by (auto simp: convert_def attempt_def exhausted_def pd_isna_raw_def Let_def isl_def
      split: sum.splits option.splits if_splits)

lemma parse_mixed_date_one_cell:
  "parse_mixed_date lib [v] = (case normalize lib v of Inl e \<Rightarrow> Inl e | Inr c \<Rightarrow> Inr [c])"
proof -
  obtain t where t: "convert lib v = Inr t" using convert_never_raises by blast
  have "datetimelike [t]" by (cases t) (simp_all add: datetimelike_def zone_def)
  then show ?thesis by (simp add: parse_mixed_date_def normalize_def t split: sum.splits)
qed






lemma days_1677: "days_from_civil 1677 9 21 = - 106752" by (simp add: days_from_civil_def Let_def)

lemma strip_1677: "strip ''1677-09-21 23:59:59'' = ''1677-09-21 23:59:59''"
    by (simp add: strip_def is_space_def)

lemma parse_iso_1677: "parse_iso ''1677-09-21 23:59:59'' = Some (Timestamp 1677 9 21 86399000000000)"
    by (simp add: parse_iso_def field_def nat_of_digits_def digit_val_def
        is_digit_def valid_date_def days_in_month_def is_leap_def days_1677 stamp_in_bounds_def)

lemma convert_1677: "convert no_parser (Text ''1677-09-21 23:59:59'') = Inr (Timestamp 1677 9 21 86399000000000)"
    by (simp add: convert_def attempt_def pd_isna_raw_def py_str_def strip_1677 fullmatch_digits_def
        to_datetime_generic_def parse_iso_1677)

lemma floor_1677: "floor_D no_parser (Timestamp 1677 9 21 86399000000000) = Inl OverflowError"
    by (simp add: floor_D_def days_1677 stamp_in_bounds_def)

lemma normalize_1677: "normalize no_parser (Text ''1677-09-21 23:59:59'') = Inl OverflowError"
    by (simp add: normalize_def convert_1677 floor_1677)

lemma parse_mixed_date_1677: "parse_mixed_date no_parser [Text ''1677-09-21 23:59:59''] = Inl OverflowError"
    by (simp add: parse_mixed_date_one_cell normalize_1677)

lemma parse_mixed_date_empty: "parse_mixed_date lib [] = Inl AttributeError"
    by (simp add: parse_mixed_date_def datetimelike_def)

lemma strip_offset: "strip ''2024-01-01T00:00:00+08:00'' = ''2024-01-01T00:00:00+08:00''"
  by (simp add: strip_def is_space_def)

lemma strip_plain: "strip ''2024-01-02 00:00:00'' = ''2024-01-02 00:00:00''"
  by (simp add: strip_def is_space_def)

lemma parse_iso_offset: "parse_iso ''2024-01-01T00:00:00+08:00'' = None"
  by (simp add: parse_iso_def)

lemma convert_offset:
  "convert offset_parser (Text ''2024-01-01T00:00:00+08:00'') =
     Inr (Aware 480 ''2024-01-01 00:00:00+08:00'')"
  by (simp add: convert_def attempt_def pd_isna_raw_def py_str_def strip_offset
      fullmatch_digits_def to_datetime_generic_def parse_iso_offset offset_parser_def)

lemma days_2024_1_2: "days_from_civil 2024 1 2 = 19724" by (simp add: days_from_civil_def Let_def)

lemma parse_iso_plain: "parse_iso ''2024-01-02 00:00:00'' = Some (Timestamp 2024 1 2 0)"
  by (simp add: parse_iso_def field_def nat_of_digits_def digit_val_def
      is_digit_def valid_date_def days_in_month_def days_2024_1_2 stamp_in_bounds_def)

lemma convert_plain:
  "convert lib (Text ''2024-01-02 00:00:00'') = Inr (Timestamp 2024 1 2 0)"
  by (simp add: convert_def attempt_def pd_isna_raw_def py_str_def strip_plain
      fullmatch_digits_def to_datetime_generic_def parse_iso_plain)

lemma parse_mixed_date_mixed:
  "parse_mixed_date offset_parser
     [Text ''2024-01-01T00:00:00+08:00'', Text ''2024-01-02 00:00:00''] = Inl AttributeError"
  by (simp add: parse_mixed_date_def convert_offset convert_plain datetimelike_def zone_def)






section \<open>Claims on the date normalizer\<close>




text \<open>
  C7. The claim asks that no exception reaches the caller. \<open>convert\<close> raises none, and
  a missing value and the empty string give Unknown; but the floor of line 33 is outside
  every \<open>try\<close>. The text \<open>1677-09-21 23:59:59\<close> is a timestamp whose midnight
  is below the least timestamp: the floor raises \<open>OverflowError\<close>, on the cell and on the
  column that holds it. The \<open>.dt\<close> accessor raises \<open>AttributeError\<close> on a column
  without cells, and on a column with one timestamp of offset \<open>+08:00\<close> and one without
  time zone.
\<close>

theorem parse_mixed_date_raises:
  "(\<forall>lib v. \<exists>t. convert lib v = Inr t) \<and>
   (\<forall>lib. normalize lib Null = Inr Unknown \<and> normalize lib (Text []) = Inr Unknown) \<and>
   normalize no_parser (Text ''1677-09-21 23:59:59'') = Inl OverflowError \<and>
   parse_mixed_date no_parser [Text ''1677-09-21 23:59:59''] = Inl OverflowError \<and>
   parse_mixed_date no_parser [] = Inl AttributeError \<and>
   parse_mixed_date offset_parser
     [Text ''2024-01-01T00:00:00+08:00'', Text ''2024-01-02 00:00:00''] = Inl AttributeError"
proof -
  have c: "\<forall>lib v. \<exists>t. convert lib v = Inr t"
    using convert_never_raises by blast
  have n: "\<forall>lib. normalize lib Null = Inr Unknown \<and> normalize lib (Text []) = Inr Unknown"
    by (simp add: normalize_def convert_def pd_isna_raw_def floor_D_def)
  show ?thesis
    using c n
    by (simp only: normalize_1677 parse_mixed_date_1677 parse_mixed_date_empty
        parse_mixed_date_mixed simp_thms)
qed

text \<open>
  C9. Idempotence. A day-resolution date that a timestamp can hold is normalized to
  itself, so that normalizing the result again changes nothing; Unknown is normalized to
  Unknown.
\<close>

theorem normalize_idempotent:
  assumes "valid_date y m d" and "in_bounds (days_from_civil y m d)"
  shows "normalize lib (as_raw (Midnight y m d)) = Inr (Midnight y m d) \<and>
         (case normalize lib (as_raw (Midnight y m d)) of
            Inl e \<Rightarrow> False
          | Inr c \<Rightarrow> normalize lib (as_raw c) = normalize lib (as_raw (Midnight y m d))) \<and>
         normalize lib (as_raw Unknown) = Inr Unknown"
proof -
  have a: "normalize lib (Date y m d) = Inr (Midnight y m d)"
    by (simp add: normalize_def convert_date[OF assms] floor_D_in_bounds[OF assms(2)])
  have b: "normalize lib Null = Inr Unknown"
    by (simp add: normalize_def convert_def pd_isna_raw_def floor_D_def)
  show ?thesis by (simp add: as_raw_def a b)
qed

theorem normalize_idempotent_witness:
  "valid_date 2024 1 1 \<and> in_bounds (days_from_civil 2024 1 1) \<and>
   normalize no_parser (Date 2024 1 1) = Inr (Midnight 2024 1 1)"
proof -
  have v: "valid_date 2024 1 1" by (simp add: valid_date_def days_in_month_def)
  have b: "in_bounds (days_from_civil 2024 1 1)"
    by (simp add: in_bounds_def days_from_civil_def Let_def)
  show ?thesis using v b normalize_idempotent[OF v b, of no_parser] by (simp add: as_raw_def)
qed

section \<open>The record merger: lemmas and claim\<close>

lemma matches_unique:
  "distinct (map fst catalog) \<Longrightarrow>
   matches k catalog = (case map_of catalog k of None \<Rightarrow> [] | Some b \<Rightarrow> [b])"
proof (induction catalog)
  case Nil
  then show ?case by (simp add: matches_def)
next
  case (Cons kb catalog)
  obtain k' b where kb: "kb = (k', b)" by (cases kb)
  have ih: "matches k catalog = (case map_of catalog k of None \<Rightarrow> [] | Some b \<Rightarrow> [b])"
    using Cons by simp
  show ?case
  proof (cases "k' = k")
    case True
    then have "map_of catalog k = None" using Cons.prems kb by (simp add: map_of_eq_None_iff)
    then have "matches k catalog = []" using ih by simp
    then show ?thesis using True kb by (simp add: matches_def)
  next
    case False
    then show ?thesis using ih kb by (simp add: matches_def)
  qed
qed

lemma merge_row_unique:
  "distinct (map fst catalog) \<Longrightarrow>
   merge_row va catalog = [(fst va, snd va, map_of catalog (fst va))]"
  by (simp add: merge_row_def matches_unique split: option.splits)

lemma merge_left_unique:
  "distinct (map fst catalog) \<Longrightarrow>
   merge_left nv catalog = map (\<lambda>va. (fst va, snd va, map_of catalog (fst va))) nv"
  by (induction nv) (simp_all add: merge_left_def merge_row_unique)

lemma reassemble:
  "rs = map (\<lambda>p. (fst (fst p), snd (fst p), snd p))
          (zip (map (\<lambda>r. (fst r, fst (snd r))) rs) (map (\<lambda>r. snd (snd r)) rs))"
  by (induction rs) auto

text \<open>
  C8. Left join. When the product codes of the catalog are pairwise different, the merge
  returns the valuation rows, each exactly once and in their order, each with the fields
  of the catalog row of exactly the same key (case and white space included), or with
  null catalog fields when no catalog row has that key; a catalog row whose key no
  valuation row has does not appear.
\<close>

theorem merge_left_join:
  assumes "distinct (map fst catalog)"
  shows "map (\<lambda>r. (fst r, fst (snd r))) (merge_left nv catalog) = nv \<and>
         map (\<lambda>r. snd (snd r)) (merge_left nv catalog) = map (\<lambda>va. map_of catalog (fst va)) nv \<and>
         (\<forall>va\<in>set nv. fst va \<notin> fst ` set catalog \<longrightarrow>
            merge_row va catalog = [(fst va, snd va, None)]) \<and>
         (\<forall>kb\<in>set catalog. fst kb \<notin> fst ` set nv \<longrightarrow>
            fst kb \<notin> fst ` set (merge_left nv catalog))"
proof (intro conjI ballI impI)
  show "map (\<lambda>r. (fst r, fst (snd r))) (merge_left nv catalog) = nv"
    by (simp add: merge_left_unique[OF assms] comp_def)
  show "map (\<lambda>r. snd (snd r)) (merge_left nv catalog) = map (\<lambda>va. map_of catalog (fst va)) nv"
    by (simp add: merge_left_unique[OF assms] comp_def)
next
  fix va assume "va \<in> set nv" "fst va \<notin> fst ` set catalog"
  then have "map_of catalog (fst va) = None" by (simp add: map_of_eq_None_iff)
  then show "merge_row va catalog = [(fst va, snd va, None)]"
    by (simp add: merge_row_unique[OF assms])
next
  fix kb assume "kb \<in> set catalog" "fst kb \<notin> fst ` set nv"
  then show "fst kb \<notin> fst ` set (merge_left nv catalog)"
    by (force simp: merge_left_unique[OF assms])
qed

theorem merge_left_join_witness:
  "distinct (map fst catalog_example) \<and>
   merge_left nv_example catalog_example =
     [(Some [65, 49], 1, Some 10), (Some [97, 49], 2, None),
      (Some [65, 49, 32], 3, None), (Some [65, 49], 4, Some 10)]"
proof -
  have d: "distinct (map fst catalog_example)" by (simp add: catalog_example_def)
  have a: "map (\<lambda>r. (fst r, fst (snd r))) (merge_left nv_example catalog_example) = nv_example"
   and b: "map (\<lambda>r. snd (snd r)) (merge_left nv_example catalog_example) =
           map (\<lambda>va. map_of catalog_example (fst va)) nv_example"
    using merge_left_join[OF d, of nv_example] by blast+
  have "merge_left nv_example catalog_example =
        map (\<lambda>p. (fst (fst p), snd (fst p), snd p))
          (zip nv_example (map (\<lambda>va. map_of catalog_example (fst va)) nv_example))"
    using reassemble[of "merge_left nv_example catalog_example"] unfolding a b .
  then show ?thesis using d by (simp add: nv_example_def catalog_example_def)
qed

section \<open>The return calculator: lemmas and claim\<close>

lemma not_integral_half: "\<not> is_integral (365 / 2)"
proof
  assume "is_integral (365 / 2)"
  then have "real_of_int (2 * \<lfloor>365 / 2 :: real\<rfloor>) = 365" by (simp add: is_integral_def)
  then have "2 * \<lfloor>365 / 2 :: real\<rfloor> = 365" by linarith
  then show False by presburger
qed

lemma dbl_max_ge_one: "1 \<le> dbl_max"
proof -
  have "(1::real) \<le> 2 ^ 1023" by (rule one_le_power) simp
  moreover have "(1::real) \<le> 2 - 1 / 2 ^ 52" by simp
  ultimately have "1 * 1 \<le> (2 - 1 / 2 ^ 52) * (2::real) ^ 1023"
    by (intro mult_mono) simp_all
  then show ?thesis by (simp add: dbl_max_def)
qed

lemma annualized_return_null_cases:
  "r_scale_date row = None \<or> r_inception row = None \<Longrightarrow> calc_annualized_return row = None"
  "r_scale_date row = Some (Day m) \<Longrightarrow> r_inception row = Some (Day n) \<Longrightarrow> m \<le> n \<Longrightarrow>
     calc_annualized_return row = None"
  "r_unit_nav row = None \<or> r_unit_nav row = Some (Value NaN) \<or> r_unit_nav row = Some NonNumeric \<Longrightarrow>
     calc_annualized_return row = None"
  by (auto simp: calc_annualized_return_def return_body_def timedelta_days_def days_le_zero_def
      py_float_def Let_def split: option.splits sum.splits ts.splits)

lemma annualized_return_formula:
  assumes "r_scale_date row = Some (Day m)" "r_inception row = Some (Day n)" "n < m"
    and "r_unit_nav row = Some (Value (Num x))" "0 \<le> x"
    and "x powr (365 / of_int (m - n)) \<le> dbl_max"
    and "\<bar>(x powr (365 / of_int (m - n)) - 1) * 100\<bar> \<le> dbl_max"
  shows "calc_annualized_return row = Some (Float ((x powr (365 / of_int (m - n)) - 1) * 100))"
proof -
  have "\<not> (x powr (365 / of_int (m - n)) - 1) * 100 > dbl_max"
    and "\<not> (x powr (365 / of_int (m - n)) - 1) * 100 < - dbl_max"
    using assms(7) by linarith+
  then show ?thesis
    using assms(1-6)
    by (simp add: calc_annualized_return_def return_body_def timedelta_days_def days_le_zero_def
        py_float_def div_365_def float_pow_def minus_1_times_100_def Let_def)
qed

text \<open>
  C2. The claim asks for null whenever a date is unknown and whenever the unit value is
  negative with a fractional exponent. The code returns a complex number for the unit
  value -1 over two days (exponent 182.5), and 0 for the unit value 1 with an unknown
  inception date.
\<close>

theorem annualized_return_not_null:
  "(\<exists>z. calc_annualized_return
          \<lparr>r_scale_date = Some (Day 2), r_inception = Some (Day 0),
           r_unit_nav = Some (Value (Num (- 1)))\<rparr> = Some (Cplx z)) \<and>
   calc_annualized_return
      \<lparr>r_scale_date = Some (Day 19723), r_inception = Some NaT,
       r_unit_nav = Some (Value (Num 1))\<rparr> = Some (Float 0)"
proof -
  have "\<not> (1::real) > dbl_max" using dbl_max_ge_one by simp
  then have "float_pow (- 1) (Some (365 / 2)) =
        Inr (Cplx (Complex (cos (pi * (365 / 2))) (sin (pi * (365 / 2)))))"
    using not_integral_half by (simp add: float_pow_def)
  then have a: "\<exists>z. calc_annualized_return
          \<lparr>r_scale_date = Some (Day 2), r_inception = Some (Day 0),
           r_unit_nav = Some (Value (Num (- 1)))\<rparr> = Some (Cplx z)"
    by (simp add: calc_annualized_return_def return_body_def timedelta_days_def days_le_zero_def
        py_float_def div_365_def minus_1_times_100_def)
  have "\<not> (1 - 1) * 100 > dbl_max" and "\<not> (1 - 1) * 100 < - dbl_max"
    using dbl_max_ge_one by simp_all
  then have b: "calc_annualized_return
      \<lparr>r_scale_date = Some (Day 19723), r_inception = Some NaT,
       r_unit_nav = Some (Value (Num 1))\<rparr> = Some (Float 0)"
    by (simp add: calc_annualized_return_def return_body_def timedelta_days_def days_le_zero_def
        py_float_def div_365_def float_pow_def minus_1_times_100_def)
  show ?thesis using a b by simp
qed

section \<open>The report projector: lemmas and claim\<close>















end
